theory Spec2Isabelle
  imports Complex_Main "HOL-Library.Product_Lexorder"
begin

section \<open>Data model\<close>

text \<open>
  \<^verbatim>\<open>DetectionResult\<close> of \<^verbatim>\<open>hybrid_detector.py\<close>. The fields \<^verbatim>\<open>text\<close> and \<^verbatim>\<open>end\<close>
  are called \<open>res_text\<close> and \<open>res_end\<close> here. Python's unbounded integers are \<open>int\<close>;
  the confidence score is a float that the code only compares and negates, and is a
  \<open>real\<close> here (no NaN).
\<close>

record DetectionResult =
  res_text :: string
  entity_type :: string
  start :: int
  res_end :: int
  score :: real
  match_mode :: string

section \<open>Overlap resolution: \<^verbatim>\<open>_deduplicate_results\<close>\<close>

text \<open>The sort key \<^verbatim>\<open>lambda r: (r.start, -r.score)\<close>; tuples compare lexicographically.\<close>

definition dedup_key :: "DetectionResult \<Rightarrow> int \<times> real" where
  "dedup_key r = (start r, - score r)"

text \<open>
  The loop over \<^verbatim>\<open>sorted_results\<close>, with its state \<^verbatim>\<open>(deduplicated, last_end)\<close>. The
  \<^verbatim>\<open>elif\<close> branch of the source only holds \<^verbatim>\<open>pass\<close>.
\<close>

fun dedup_loop ::
  "DetectionResult list \<Rightarrow> DetectionResult list \<times> int \<Rightarrow> DetectionResult list \<times> int" where
  "dedup_loop [] st = st"
| "dedup_loop (result # rest) (deduplicated, last_end) =
     (if start result \<ge> last_end
      then dedup_loop rest (deduplicated @ [result], res_end result)
      else if res_text result \<notin> set (map res_text deduplicated)
      then dedup_loop rest (deduplicated, last_end)
      else dedup_loop rest (deduplicated, last_end))"

text \<open>Python's \<^verbatim>\<open>sorted\<close> is a stable sort, as \<^const>\<open>sort_key\<close> is.\<close>

definition deduplicate_results :: "DetectionResult list \<Rightarrow> DetectionResult list" where
  "deduplicate_results results =
     (if results = [] then []
      else fst (dedup_loop (sort_key dedup_key results) ([], - 1)))"

subsection \<open>The resolver as the specification words it\<close>

text \<open>
  Candidate \<open>a\<close> comes strictly before candidate \<open>b\<close> in the order
  (start ascending, confidence descending).
\<close>

definition precedes :: "DetectionResult \<Rightarrow> DetectionResult \<Rightarrow> bool" where
  "precedes a b \<longleftrightarrow> start a < start b \<or> (start a = start b \<and> score a > score b)"

text \<open>Stable insertion sort: a candidate never overtakes one that does not come after it.\<close>

fun stable_insert :: "DetectionResult \<Rightarrow> DetectionResult list \<Rightarrow> DetectionResult list" where
  "stable_insert x [] = [x]"
| "stable_insert x (y # ys) =
     (if precedes y x then y # stable_insert x ys else x # y # ys)"

fun stable_sort_spans :: "DetectionResult list \<Rightarrow> DetectionResult list" where
  "stable_sort_spans [] = []"
| "stable_sort_spans (x # xs) = stable_insert x (stable_sort_spans xs)"

text \<open>The greedy walk with the cursor \<open>last_end\<close>.\<close>

fun greedy_accept :: "int \<Rightarrow> DetectionResult list \<Rightarrow> DetectionResult list" where
  "greedy_accept last_end [] = []"
| "greedy_accept last_end (s # ss) =
     (if start s \<ge> last_end then s # greedy_accept (res_end s) ss
      else greedy_accept last_end ss)"

definition resolve_spec :: "DetectionResult list \<Rightarrow> DetectionResult list" where
  "resolve_spec spans = greedy_accept (- 1) (stable_sort_spans spans)"

text \<open>Two spans overlap when their half-open ranges \<open>[start, end)\<close> share a character index.\<close>

definition overlaps :: "DetectionResult \<Rightarrow> DetectionResult \<Rightarrow> bool" where
  "overlaps a b \<longleftrightarrow> max (start a) (start b) < min (res_end a) (res_end b)"

section \<open>Python strings\<close>

text \<open>
  A \<^verbatim>\<open>str\<close> is a \<^typ>\<open>string\<close>, one \<^typ>\<open>char\<close> per character. The model covers
  ASCII text: \<open>lower\<close> and \<open>upper\<close> change the letters A to Z and a to z only, and
  the whitespace characters are those of \<^verbatim>\<open>str.isspace\<close> below code point 128.
\<close>

definition is_space :: "char \<Rightarrow> bool" where
  "is_space c = (let n = (of_char c :: nat) in (9 \<le> n \<and> n \<le> 13) \<or> (28 \<le> n \<and> n \<le> 32))"

definition is_upper :: "char \<Rightarrow> bool" where
  "is_upper c = (let n = (of_char c :: nat) in 65 \<le> n \<and> n \<le> 90)"

definition is_lower :: "char \<Rightarrow> bool" where
  "is_lower c = (let n = (of_char c :: nat) in 97 \<le> n \<and> n \<le> 122)"

definition is_digit :: "char \<Rightarrow> bool" where
  "is_digit c = (let n = (of_char c :: nat) in 48 \<le> n \<and> n \<le> 57)"

definition lower_char :: "char \<Rightarrow> char" where
  "lower_char c = (if is_upper c then char_of (of_char c + (32 :: nat)) else c)"

definition upper_char :: "char \<Rightarrow> char" where
  "upper_char c = (if is_lower c then char_of (of_char c - (32 :: nat)) else c)"

text \<open>\<^verbatim>\<open>s.lower()\<close> and \<^verbatim>\<open>s.upper()\<close>.\<close>

definition lower :: "string \<Rightarrow> string" where
  "lower s = map lower_char s"

definition upper :: "string \<Rightarrow> string" where
  "upper s = map upper_char s"

text \<open>\<^verbatim>\<open>s.strip()\<close>: whitespace removed at both ends.\<close>

definition strip :: "string \<Rightarrow> string" where
  "strip s = rev (dropWhile is_space (rev (dropWhile is_space s)))"

text \<open>\<^verbatim>\<open>s.split()\<close>: the maximal runs of characters that are not whitespace.\<close>

fun split_aux :: "string \<Rightarrow> string \<Rightarrow> string list" where
  "split_aux cur [] = (if cur = [] then [] else [cur])"
| "split_aux cur (c # cs) =
     (if is_space c then (if cur = [] then split_aux [] cs else cur # split_aux [] cs)
      else split_aux (cur @ [c]) cs)"

definition split :: "string \<Rightarrow> string list" where
  "split s = split_aux [] s"

text \<open>\<^verbatim>\<open>s[i:j]\<close> for \<open>0 \<le> i\<close>; the slice is clipped at the end of \<open>s\<close>.\<close>

definition slice :: "string \<Rightarrow> nat \<Rightarrow> nat \<Rightarrow> string" where
  "slice s i j = take (j - i) (drop i s)"

text \<open>
  \<^verbatim>\<open>s.find(sub, start)\<close>: the lowest index at or after \<open>start\<close> where \<open>sub\<close>
  occurs, \<open>None\<close> for Python's \<open>-1\<close>.
\<close>

fun find_in :: "string \<Rightarrow> string \<Rightarrow> nat \<Rightarrow> nat option" where
  "find_in sub [] i = (if sub = [] then Some i else None)"
| "find_in sub (c # cs) i =
     (if take (length sub) (c # cs) = sub then Some i else find_in sub cs (Suc i))"

definition find_str :: "string \<Rightarrow> string \<Rightarrow> nat \<Rightarrow> nat option" where
  "find_str s sub i = (if i > length s then None else find_in sub (drop i s) i)"

text \<open>\<^verbatim>\<open>sub in s\<close>.\<close>

definition contains :: "string \<Rightarrow> string \<Rightarrow> bool" where
  "contains sub s = (find_str s sub 0 \<noteq> None)"

section \<open>Regular expressions of the \<^verbatim>\<open>re\<close> module\<close>

text \<open>
  The patterns of the source are written in the following syntax tree and run by a
  backtracking matcher that returns its successes in the order in which \<^verbatim>\<open>re\<close> tries
  them: the first one is the match \<^verbatim>\<open>re\<close> reports. Repetition is greedy and ranges over
  one character class, which is all the patterns of the source need.
\<close>

datatype cls_item =
    Single char             \<comment> \<open>one character\<close>
  | Char_range char char         \<comment> \<open>\<^verbatim>\<open>a-z\<close>\<close>
  | Space                   \<comment> \<open>\<^verbatim>\<open>\s\<close>\<close>
  | Word                    \<comment> \<open>\<^verbatim>\<open>\w\<close>\<close>

datatype rx =
    Empty
  | Lit string                         \<comment> \<open>literal text\<close>
  | Cls "cls_item list"                \<comment> \<open>\<^verbatim>\<open>[...]\<close>, one character of the class\<close>
  | Seq rx rx
  | Alt rx rx                          \<comment> \<open>\<^verbatim>\<open>a|b\<close>, \<open>a\<close> tried first\<close>
  | Opt rx                             \<comment> \<open>\<^verbatim>\<open>a?\<close>\<close>
  | Rep "cls_item list" nat "nat option"  \<comment> \<open>\<^verbatim>\<open>[...]{lo,hi}\<close>; \<open>None\<close> is no upper bound\<close>
  | Group nat rx                       \<comment> \<open>capturing group\<close>
  | Look rx                            \<comment> \<open>\<^verbatim>\<open>(?=a)\<close>\<close>
  | WordB                              \<comment> \<open>\<^verbatim>\<open>\b\<close>\<close>
  | Eol                                \<comment> \<open>\<^verbatim>\<open>$\<close> under \<^verbatim>\<open>re.MULTILINE\<close>\<close>

definition is_word :: "char \<Rightarrow> bool" where
  "is_word c = (is_upper c \<or> is_lower c \<or> is_digit c \<or> c = CHR ''_'')"

fun item_has :: "cls_item \<Rightarrow> char \<Rightarrow> bool" where
  "item_has (Single d) c = (c = d)"
| "item_has (Char_range a b) c = ((of_char a :: nat) \<le> of_char c \<and> (of_char c :: nat) \<le> of_char b)"
| "item_has Space c = is_space c"
| "item_has Word c = is_word c"

text \<open>
  Membership in a class; under \<^verbatim>\<open>re.IGNORECASE\<close> (\<open>ic\<close>) a character also matches
  through its lower-case and its upper-case form.
\<close>

definition cls_has :: "bool \<Rightarrow> cls_item list \<Rightarrow> char \<Rightarrow> bool" where
  "cls_has ic items c =
     (list_ex (\<lambda>it. item_has it c) items \<or>
      (ic \<and> list_ex (\<lambda>it. item_has it (lower_char c) \<or> item_has it (upper_char c)) items))"

definition lit_eq :: "bool \<Rightarrow> string \<Rightarrow> string \<Rightarrow> bool" where
  "lit_eq ic s t = (if ic then lower s = lower t else s = t)"

text \<open>The length of the run of class characters at the head of a text, at most \<open>hi\<close>.\<close>

fun run_length :: "bool \<Rightarrow> cls_item list \<Rightarrow> nat option \<Rightarrow> string \<Rightarrow> nat" where
  "run_length ic items hi [] = 0"
| "run_length ic items hi (c # cs) =
     (if hi = Some 0 \<or> \<not> cls_has ic items c then 0
      else Suc (run_length ic items (map_option (\<lambda>h. h - 1) hi) cs))"

definition word_at :: "string \<Rightarrow> nat \<Rightarrow> bool" where
  "word_at t p = (p < length t \<and> is_word (t ! p))"

text \<open>\<^verbatim>\<open>\b\<close> holds at \<open>p\<close> when exactly one of the characters around \<open>p\<close> is a word character.\<close>

definition word_boundary :: "string \<Rightarrow> nat \<Rightarrow> bool" where
  "word_boundary t p = ((p > 0 \<and> word_at t (p - 1)) \<noteq> word_at t p)"

type_synonym caps = "(nat \<times> nat \<times> nat) list"

text \<open>
  \<open>rx_match ic t r p c\<close>: the ways \<open>r\<close> matches \<open>t\<close> from position \<open>p\<close> with the groups
  \<open>c\<close> set so far, each an end position and the groups, in backtracking order.
\<close>

fun rx_match :: "bool \<Rightarrow> string \<Rightarrow> rx \<Rightarrow> nat \<Rightarrow> caps \<Rightarrow> (nat \<times> caps) list" where
  "rx_match ic t Empty p c = [(p, c)]"
| "rx_match ic t (Lit s) p c =
     (if p + length s \<le> length t \<and> lit_eq ic s (take (length s) (drop p t))
      then [(p + length s, c)] else [])"
| "rx_match ic t (Cls items) p c =
     (if p < length t \<and> cls_has ic items (t ! p) then [(Suc p, c)] else [])"
| "rx_match ic t (Seq a b) p c =
     concat (map (\<lambda>(q, d). rx_match ic t b q d) (rx_match ic t a p c))"
| "rx_match ic t (Alt a b) p c = rx_match ic t a p c @ rx_match ic t b p c"
| "rx_match ic t (Opt a) p c = rx_match ic t a p c @ [(p, c)]"
| "rx_match ic t (Rep items lo hi) p c =
     map (\<lambda>k. (p + k, c)) (rev [lo ..< Suc (run_length ic items hi (drop p t))])"
| "rx_match ic t (Group g a) p c =
     map (\<lambda>(q, d). (q, (g, p, q) # d)) (rx_match ic t a p c)"
| "rx_match ic t (Look a) p c =
     (case rx_match ic t a p c of [] \<Rightarrow> [] | (q, d) # _ \<Rightarrow> [(p, d)])"
| "rx_match ic t WordB p c = (if word_boundary t p then [(p, c)] else [])"
| "rx_match ic t Eol p c =
     (if p = length t \<or> (p < length t \<and> t ! p = CHR 0x0A) then [(p, c)] else [])"

text \<open>
  \<^verbatim>\<open>finditer\<close>: the leftmost match from each position, the search going on where the
  last match ended. A match is its start, its end and its groups. (After an empty match
  the search moves one character on; no pattern of the source matches the empty text.)
\<close>

fun rx_scan :: "bool \<Rightarrow> rx \<Rightarrow> string \<Rightarrow> nat list \<Rightarrow> nat \<Rightarrow> (nat \<times> nat \<times> caps) list" where
  "rx_scan ic r t [] resume = []"
| "rx_scan ic r t (s # ss) resume =
     (if s < resume then rx_scan ic r t ss resume
      else (case rx_match ic t r s [] of
              [] \<Rightarrow> rx_scan ic r t ss resume
            | (e, c) # _ \<Rightarrow> (s, e, c) # rx_scan ic r t ss (max e (Suc s))))"

definition finditer :: "bool \<Rightarrow> rx \<Rightarrow> string \<Rightarrow> (nat \<times> nat \<times> caps) list" where
  "finditer ic r t = rx_scan ic r t [0 ..< Suc (length t)] 0"

definition seqs :: "rx list \<Rightarrow> rx" where
  "seqs rs = foldr Seq rs Empty"

definition alts :: "rx \<Rightarrow> rx list \<Rightarrow> rx" where
  "alts r rs = foldr Alt (butlast (r # rs)) (last (r # rs))"

section \<open>The deny list and the label heuristic\<close>

definition DENY_LIST :: "string list" where
  "DENY_LIST =
     [''name'', ''student'', ''father'', ''mother'', ''guardian'', ''aadhaar'', ''caste'',
      ''category'', ''income'', ''board'', ''university'', ''college'', ''course'',
      ''seat'', ''type'', ''quota'', ''number'', ''id'', ''date'', ''year'', ''branch'',
      ''discipline'', ''attestation'', ''submitted'', ''considered'', ''eligible'',
      ''details'', ''status'', ''bank'', ''branch'']"

text \<open>
  The pattern of \<^verbatim>\<open>_detect_label_based_names\<close>, compiled with \<^verbatim>\<open>(?i)\<close> and
  \<^verbatim>\<open>re.MULTILINE\<close>:
  \<^verbatim>\<open>\b(?:Name|Student|Father|Mother|Guardian|Husband|Wife)(?:\s+(?:Name|of|Student))?\<close>
  \<^verbatim>\<open>[\s\:\-\.]+(?:as\s+in\s+Aadhaar)?[\s\:\-\.]*([A-Z][A-Za-z\s\.]{2,40})(?=$|\s{2,}|\n)\<close>
\<close>

definition label_regex :: rx where
  "label_regex = seqs
     [WordB,
      alts (Lit ''Name'') [Lit ''Student'', Lit ''Father'', Lit ''Mother'', Lit ''Guardian'',
        Lit ''Husband'', Lit ''Wife''],
      Opt (seqs [Rep [Space] 1 None, alts (Lit ''Name'') [Lit ''of'', Lit ''Student'']]),
      Rep [Space, Single CHR '':'', Single CHR ''-'', Single CHR ''.''] 1 None,
      Opt (seqs [Lit ''as'', Rep [Space] 1 None, Lit ''in'', Rep [Space] 1 None, Lit ''Aadhaar'']),
      Rep [Space, Single CHR '':'', Single CHR ''-'', Single CHR ''.''] 0 None,
      Group 1 (seqs
        [Cls [Char_range CHR ''A'' CHR ''Z''],
         Rep [Char_range CHR ''A'' CHR ''Z'', Char_range CHR ''a'' CHR ''z'', Space, Single CHR ''.'']
           2 (Some 40)]),
      Look (alts Eol [Rep [Space] 2 None, Cls [Single (CHR 0x0A)]])]"

text \<open>
  The loop body of \<^verbatim>\<open>_detect_label_based_names\<close> for one match: group 1 is not
  optional in the pattern, so every match has it.
\<close>

definition label_result :: "string \<Rightarrow> nat \<times> nat \<times> caps \<Rightarrow> DetectionResult list" where
  "label_result txt m =
     (case map_of (snd (snd m)) 1 of
        None \<Rightarrow> []
      | Some (s, e) \<Rightarrow>
          (let val = strip (slice txt s e) in
           if val = [] \<or> length val < 2 then []
           else (let val_lower = lower val in
             if val_lower \<in> set DENY_LIST \<or> contains ''id'' val_lower
                \<or> contains ''number'' val_lower then []
             else [\<lparr>res_text = val, entity_type = ''PERSON'', start = int s, res_end = int e,
                     score = 85 / 100, match_mode = ''label_heuristic''\<rparr>])))"

definition detect_label_based_names :: "string \<Rightarrow> DetectionResult list" where
  "detect_label_based_names txt =
     concat (map (label_result txt) (finditer True label_regex txt))"

section \<open>Deny-list filter: \<^verbatim>\<open>_filter_deny_list\<close>\<close>

fun deny_loop :: "DetectionResult list \<Rightarrow> DetectionResult list \<Rightarrow> DetectionResult list" where
  "deny_loop [] filtered = filtered"
| "deny_loop (r # rest) filtered =
     (let text_lower = strip (lower (res_text r)) in
      if text_lower \<in> set DENY_LIST then deny_loop rest filtered
      else if contains ''name'' text_lower \<and> length (split text_lower) \<le> 2
      then deny_loop rest filtered
      else deny_loop rest (filtered @ [r]))"

definition filter_deny_list :: "DetectionResult list \<Rightarrow> DetectionResult list" where
  "filter_deny_list results = deny_loop results []"

subsection \<open>The filter as the specification words it\<close>

text \<open>The lowercased, trimmed text is an element of the deny list.\<close>

definition on_deny_list :: "DetectionResult \<Rightarrow> bool" where
  "on_deny_list r = (strip (lower (res_text r)) \<in> set DENY_LIST)"

text \<open>
  The lowercased text contains the substring \<open>name\<close> and consists of at most two
  whitespace-separated words.
\<close>

definition short_name_header :: "DetectionResult \<Rightarrow> bool" where
  "short_name_header r =
     (contains ''name'' (lower (res_text r)) \<and> length (split (lower (res_text r))) \<le> 2)"

section \<open>Keyword matching\<close>

datatype MatchMode = EXACT | FUZZY | REGEX

subsection \<open>\<^verbatim>\<open>_exact_match\<close>\<close>

text \<open>The \<^verbatim>\<open>while True\<close> loop for one keyword, from the search position \<open>i\<close>.\<close>

function exact_loop ::
  "string \<Rightarrow> string \<Rightarrow> string \<Rightarrow> string \<Rightarrow> nat \<Rightarrow> DetectionResult list \<Rightarrow> DetectionResult list" where
  "exact_loop txt text_lower keyword keyword_lower i results =
     (case find_str text_lower keyword_lower i of
        None \<Rightarrow> results
      | Some idx \<Rightarrow>
          exact_loop txt text_lower keyword keyword_lower (idx + 1)
            (results @
              [\<lparr>res_text = slice txt idx (idx + length keyword),
                entity_type = ''CUSTOM_KEYWORD'',
                start = int idx,
                res_end = int idx + int (length keyword),
                score = 1,
                match_mode = ''exact''\<rparr>]))"
  by pat_completeness auto

termination exact_loop
proof (relation "measure (\<lambda>(txt, text_lower, keyword, keyword_lower, i, results).
        Suc (length text_lower) - i)", goal_cases)
  case 1
  show ?case by simp
next
  case (2 t tl kw kwl i rs idx)
  have in_bounds: "find_in sub u k = Some j \<Longrightarrow> k \<le> j \<and> j \<le> k + length u" for sub u k j
    by (induction u arbitrary: k) (fastforce split: if_splits)+
  from 2 have "i \<le> length tl" and "find_in kwl (drop i tl) i = Some idx"
    by (simp_all add: find_str_def split: if_splits)
  with in_bounds [of kwl "drop i tl" i idx]
  have "i \<le> idx \<and> idx \<le> length tl" by simp
  then show ?case by auto
qed

fun exact_keywords ::
  "string \<Rightarrow> string \<Rightarrow> string list \<Rightarrow> DetectionResult list \<Rightarrow> DetectionResult list" where
  "exact_keywords txt text_lower [] results = results"
| "exact_keywords txt text_lower (keyword # rest) results =
     (if strip keyword = [] then exact_keywords txt text_lower rest results
      else exact_keywords txt text_lower rest
             (exact_loop txt text_lower keyword (strip (lower keyword)) 0 results))"

definition exact_match :: "string \<Rightarrow> string list \<Rightarrow> DetectionResult list" where
  "exact_match txt keywords = exact_keywords txt (lower txt) keywords []"

subsection \<open>\<^verbatim>\<open>_fuzzy_match\<close>\<close>

text \<open>
  The similarity functions of the RapidFuzz library, \<^verbatim>\<open>fuzz.ratio\<close> and
  \<^verbatim>\<open>fuzz.partial_ratio\<close>, are taken as given: they return a float between 0 and 100.
\<close>

record fuzz =
  ratio :: "string \<Rightarrow> string \<Rightarrow> real"
  partial_ratio :: "string \<Rightarrow> string \<Rightarrow> real"

text \<open>\<^verbatim>\<open>word_pattern = re.compile(r'\b\w+\b')\<close>\<close>

definition word_pattern :: rx where
  "word_pattern = seqs [WordB, Rep [Word] 1 None, WordB]"

text \<open>
  The loop over the keywords for one word: it ends at the first keyword that matches
  (\<^verbatim>\<open>break\<close>), with the one result appended for it.
\<close>

fun fuzzy_keywords ::
  "fuzz \<Rightarrow> string \<Rightarrow> nat \<Rightarrow> nat \<Rightarrow> string list \<Rightarrow> int \<Rightarrow> DetectionResult list" where
  "fuzzy_keywords fz word word_start word_end [] threshold = []"
| "fuzzy_keywords fz word word_start word_end (keyword # rest) threshold =
     (if strip keyword = [] then fuzzy_keywords fz word word_start word_end rest threshold
      else (let sc = ratio fz (lower word) (strip (lower keyword)) in
        if sc \<ge> of_int threshold
        then [\<lparr>res_text = word, entity_type = ''CUSTOM_KEYWORD'', start = int word_start,
                res_end = int word_end, score = sc / 100, match_mode = ''fuzzy''\<rparr>]
        else if length keyword > 4
        then (let partial_score = partial_ratio fz (strip (lower keyword)) (lower word) in
          if partial_score \<ge> of_int threshold
          then [\<lparr>res_text = word, entity_type = ''CUSTOM_KEYWORD'', start = int word_start,
                  res_end = int word_end, score = partial_score / 100,
                  match_mode = ''fuzzy_partial''\<rparr>]
          else fuzzy_keywords fz word word_start word_end rest threshold)
        else fuzzy_keywords fz word word_start word_end rest threshold))"

definition fuzzy_match :: "fuzz \<Rightarrow> string \<Rightarrow> string list \<Rightarrow> int \<Rightarrow> DetectionResult list" where
  "fuzzy_match fz txt keywords threshold =
     concat (map (\<lambda>(s, e, c). fuzzy_keywords fz (slice txt s e) s e keywords threshold)
               (finditer False word_pattern txt))"

subsection \<open>\<^verbatim>\<open>_regex_match\<close>\<close>

text \<open>
  User patterns are compiled by \<^verbatim>\<open>re.compile(pattern.strip(), re.IGNORECASE)\<close>, which is
  taken as given. It returns a compiled pattern, here the function from a text to the
  spans of its \<^verbatim>\<open>finditer\<close> matches, or raises \<^verbatim>\<open>re.error\<close>, or raises another
  exception, which the handler \<^verbatim>\<open>except re.error\<close> does not catch.
\<close>

datatype compiled = Compiled "string \<Rightarrow> (nat \<times> nat) list" | Re_error | Other_exception

datatype failure = Uncaught_exception

definition regex_result :: "string \<Rightarrow> nat \<times> nat \<Rightarrow> DetectionResult" where
  "regex_result txt m =
     \<lparr>res_text = slice txt (fst m) (snd m), entity_type = ''CUSTOM_PATTERN'',
      start = int (fst m), res_end = int (snd m), score = 1, match_mode = ''regex''\<rparr>"

fun regex_loop ::
  "(string \<Rightarrow> compiled) \<Rightarrow> string \<Rightarrow> string list \<Rightarrow> DetectionResult list
     \<Rightarrow> failure + DetectionResult list" where
  "regex_loop re_compile txt [] results = Inr results"
| "regex_loop re_compile txt (pattern # rest) results =
     (if strip pattern = [] then regex_loop re_compile txt rest results
      else (case re_compile (strip pattern) of
              Compiled regex \<Rightarrow>
                regex_loop re_compile txt rest (results @ map (regex_result txt) (regex txt))
            | Re_error \<Rightarrow> regex_loop re_compile txt rest results
            | Other_exception \<Rightarrow> Inl Uncaught_exception))"

definition regex_match ::
  "(string \<Rightarrow> compiled) \<Rightarrow> string \<Rightarrow> string list \<Rightarrow> failure + DetectionResult list" where
  "regex_match re_compile txt patterns = regex_loop re_compile txt patterns []"


subsection \<open>\<^verbatim>\<open>_detect_keywords\<close>\<close>

definition detect_keywords ::
  "fuzz \<Rightarrow> (string \<Rightarrow> compiled) \<Rightarrow> string \<Rightarrow> string list \<Rightarrow> MatchMode \<Rightarrow> int
     \<Rightarrow> failure + DetectionResult list" where
  "detect_keywords fz re_compile txt keywords mode fuzzy_threshold =
     (case mode of
        EXACT \<Rightarrow> Inr (exact_match txt keywords)
      | FUZZY \<Rightarrow> Inr (fuzzy_match fz txt keywords fuzzy_threshold)
      | REGEX \<Rightarrow> regex_match re_compile txt keywords)"

section \<open>The detection pipeline: \<^verbatim>\<open>detect\<close>\<close>

text \<open>
  The Presidio analyzer is taken as given: \<^verbatim>\<open>analyzer.analyze\<close> returns recognizer
  results (entity type, start, end, score) or raises, and \<^verbatim>\<open>_detect_with_presidio\<close>
  catches every exception of it.
\<close>

record RecognizerResult =
  rr_entity_type :: string
  rr_start :: nat
  rr_end :: nat
  rr_score :: real

definition detect_with_presidio ::
  "(string \<Rightarrow> string list \<Rightarrow> failure + RecognizerResult list) \<Rightarrow> string \<Rightarrow> string list \<Rightarrow> real
     \<Rightarrow> DetectionResult list" where
  "detect_with_presidio analyze txt entities min_score =
     (let all_entities =
            (if ''AADHAAR_IN'' \<in> set entities then entities else entities @ [''AADHAAR_IN'']);
          all_entities =
            (if ''PAN_IN'' \<in> set all_entities then all_entities else all_entities @ [''PAN_IN''])
      in case analyze txt all_entities of
           Inl _ \<Rightarrow> []
         | Inr presidio_results \<Rightarrow>
             map (\<lambda>r. \<lparr>res_text = slice txt (rr_start r) (rr_end r),
                        entity_type = rr_entity_type r,
                        start = int (rr_start r), res_end = int (rr_end r),
                        score = rr_score r, match_mode = ''presidio''\<rparr>)
               (filter (\<lambda>r. rr_score r \<ge> min_score) presidio_results))"

text \<open>
  The candidates of the three layers, in the order in which \<^verbatim>\<open>detect\<close> collects them.
  \<open>enabled_entities\<close> is the entity list in force; \<open>custom_keywords\<close> is \<open>None\<close> or a list.
\<close>

definition detect_candidates ::
  "(string \<Rightarrow> string list \<Rightarrow> failure + RecognizerResult list) \<Rightarrow> fuzz \<Rightarrow> (string \<Rightarrow> compiled)
     \<Rightarrow> string \<Rightarrow> string list option \<Rightarrow> MatchMode \<Rightarrow> int \<Rightarrow> string list \<Rightarrow> real
     \<Rightarrow> failure + DetectionResult list" where
  "detect_candidates analyze fz re_compile txt custom_keywords mode fuzzy_threshold
       enabled_entities min_score =
     (let presidio_results =
            (if enabled_entities \<noteq> []
             then detect_with_presidio analyze txt enabled_entities min_score else [])
      in case (case custom_keywords of
                 None \<Rightarrow> Inr []
               | Some kws \<Rightarrow>
                   if kws = [] then Inr []
                   else detect_keywords fz re_compile txt kws mode fuzzy_threshold) of
           Inl e \<Rightarrow> Inl e
         | Inr keyword_results \<Rightarrow>
             Inr (presidio_results @ keyword_results @ detect_label_based_names txt))"

definition detect ::
  "(string \<Rightarrow> string list \<Rightarrow> failure + RecognizerResult list) \<Rightarrow> fuzz \<Rightarrow> (string \<Rightarrow> compiled)
     \<Rightarrow> string \<Rightarrow> string list option \<Rightarrow> MatchMode \<Rightarrow> int \<Rightarrow> string list \<Rightarrow> real
     \<Rightarrow> failure + DetectionResult list" where
  "detect analyze fz re_compile txt custom_keywords mode fuzzy_threshold
       enabled_entities min_score =
     (case detect_candidates analyze fz re_compile txt custom_keywords mode fuzzy_threshold
             enabled_entities min_score of
        Inl e \<Rightarrow> Inl e
      | Inr results \<Rightarrow>
          Inr (filter_deny_list (deduplicate_results (deduplicate_results results))))"

section \<open>The similarity ratios\<close>

text \<open>The length of a longest common subsequence.\<close>

fun lcs :: "string \<Rightarrow> string \<Rightarrow> nat" where
  "lcs [] ys = 0"
| "lcs (x # xs) [] = 0"
| "lcs (x # xs) (y # ys) =
     (if x = y then Suc (lcs xs ys) else max (lcs xs (y # ys)) (lcs (x # xs) ys))"

text \<open>
  Modelled from the spec: the normalized edit-distance similarity ratio (0 to 100) of
  the keyword and raster matchers, which the source takes from RapidFuzz as
  \<^verbatim>\<open>fuzz.ratio\<close>. There it is the normalized indel similarity: with the indel distance
  \<open>d = |s1| + |s2| - 2 * lcs\<close> (insertions and deletions only), the ratio is
  \<open>100 * (1 - d / (|s1| + |s2|))\<close>, and 100 for two empty strings.
\<close>

definition indel_ratio :: "string \<Rightarrow> string \<Rightarrow> real" where
  "indel_ratio s1 s2 =
     (if s1 = [] \<and> s2 = [] then 100
      else 100 * real (2 * lcs s1 s2) / real (length s1 + length s2))"

text \<open>
  Modelled from the spec: the partial (substring) similarity ratio, \<^verbatim>\<open>fuzz.partial_ratio\<close>
  of RapidFuzz: the best ratio of the shorter string against the windows of its length in
  the longer string.
\<close>

definition windows :: "nat \<Rightarrow> string \<Rightarrow> string list" where
  "windows n s = map (\<lambda>i. take n (drop i s)) [0 ..< Suc (length s - n)]"

definition window_ratio :: "string \<Rightarrow> string \<Rightarrow> real" where
  "window_ratio s1 s2 =
     (let shorter = (if length s1 \<le> length s2 then s1 else s2);
          longer = (if length s1 \<le> length s2 then s2 else s1)
      in fold max (map (indel_ratio shorter) (windows (length shorter) longer)) 0)"

definition rapidfuzz :: fuzz where
  "rapidfuzz = \<lparr>ratio = indel_ratio, partial_ratio = window_ratio\<rparr>"

section \<open>Raster layer: \<^verbatim>\<open>process_image_with_ocr\<close>\<close>

text \<open>
  One entry of the word-level OCR output (\<^verbatim>\<open>pytesseract.image_to_data\<close>): the text and
  the box \<^verbatim>\<open>left, top, width, height\<close> in pixels.
\<close>

record ocr_word =
  ocr_text :: string
  ocr_left :: int
  ocr_top :: int
  ocr_width :: int
  ocr_height :: int

text \<open>
  Python's truth value of \<^verbatim>\<open>fuzzy_threshold: Optional[int]\<close>: \<^verbatim>\<open>None\<close> and \<open>0\<close> are
  false.
\<close>

definition truthy :: "int option \<Rightarrow> bool" where
  "truthy fuzzy_threshold = (case fuzzy_threshold of None \<Rightarrow> False | Some n \<Rightarrow> n \<noteq> 0)"

text \<open>
  The loop over \<^verbatim>\<open>pii_terms\<close> for one OCR word \<open>txt\<close>; its value is \<^verbatim>\<open>is_match\<close>. The
  RapidFuzz library is \<open>None\<close> when its import failed (\<^verbatim>\<open>RAPIDFUZZ_AVAILABLE\<close> is false).
\<close>

fun term_loop :: "fuzz option \<Rightarrow> string \<Rightarrow> string list \<Rightarrow> int option \<Rightarrow> bool" where
  "term_loop fz txt [] fuzzy_threshold = False"
| "term_loop fz txt (pii_term # rest) fuzzy_threshold =
     (if contains (lower pii_term) (lower txt) then True
      else (case (fz, fuzzy_threshold) of
              (Some f, Some th) \<Rightarrow>
                if th \<noteq> 0 then
                  (if ratio f (lower txt) (lower pii_term) \<ge> of_int th then True
                   else if length pii_term > 4
                           \<and> partial_ratio f (lower pii_term) (lower txt) \<ge> of_int th
                   then True
                   else term_loop fz txt rest fuzzy_threshold)
                else term_loop fz txt rest fuzzy_threshold
            | _ \<Rightarrow> term_loop fz txt rest fuzzy_threshold))"

datatype colour = White | Black

text \<open>
  The drawing calls on the image: \<^verbatim>\<open>cv2.rectangle(img, (x0, y0), (x1, y1), colour, -1)\<close>
  and \<^verbatim>\<open>cv2.putText(img, text, (x, y), ...)\<close>.
\<close>

datatype draw = Rectangle int int int int colour | Put_text string int int

definition redact_word :: "string \<Rightarrow> string \<Rightarrow> ocr_word \<Rightarrow> draw list" where
  "redact_word method replace_text w =
     (let x = ocr_left w; y = ocr_top w; wd = ocr_width w; h = ocr_height w in
      if method = ''replace''
      then [Rectangle x y (x + wd) (y + h) White, Put_text replace_text x (y + h div 2)]
      else if method = ''obfuscate'' then [Rectangle x y (x + wd) (y + h) Black]
      else [Rectangle x y (x + wd) (y + h) White])"

text \<open>
  \<^verbatim>\<open>process_image_with_ocr\<close> between decoding and OCR on the one side and encoding on the
  other: from the OCR words to the drawing calls, in order.
\<close>

definition process_image_with_ocr ::
  "fuzz option \<Rightarrow> ocr_word list \<Rightarrow> string list \<Rightarrow> string \<Rightarrow> string \<Rightarrow> int option \<Rightarrow> draw list" where
  "process_image_with_ocr fz ocr_result pii_terms method replace_text fuzzy_threshold =
     concat (map (\<lambda>w. let txt = strip (ocr_text w) in
                       if txt = [] then []
                       else if term_loop fz txt pii_terms fuzzy_threshold
                       then redact_word method replace_text w else [])
               ocr_result)"

subsection \<open>The raster match as the specification words it\<close>

text \<open>
  Some term is a case-insensitive substring of the word, or, when a fuzzy threshold is
  set, its whole-word ratio meets the threshold, or (for a term longer than 4 characters)
  its partial ratio does.
\<close>

definition raster_match_spec :: "fuzz \<Rightarrow> string \<Rightarrow> string list \<Rightarrow> int option \<Rightarrow> bool" where
  "raster_match_spec f txt pii_terms fuzzy_threshold =
     list_ex (\<lambda>t. contains (lower t) (lower txt)
                \<or> (case fuzzy_threshold of
                      None \<Rightarrow> False
                    | Some th \<Rightarrow> ratio f (lower txt) (lower t) \<ge> of_int th
                        \<or> (length t > 4 \<and> partial_ratio f (lower t) (lower txt) \<ge> of_int th)))
       pii_terms"

section \<open>Position resolution: \<^verbatim>\<open>search_text_with_fallback\<close>\<close>

text \<open>A \<^verbatim>\<open>fitz.Rect\<close>: the coordinates \<open>x0, y0, x1, y1\<close>.\<close>

type_synonym rect = "real \<times> real \<times> real \<times> real"

text \<open>
  What the resolver asks of a PyMuPDF page: the native search \<^verbatim>\<open>page.search_for\<close>, and
  the two searches over the page's text dictionary, \<^verbatim>\<open>_character_level_search(page, term)\<close>
  and \<^verbatim>\<open>_fuzzy_search_in_page(page, term, threshold)\<close>, both of which catch every
  exception and return the list of rectangles found. They are taken as given.
\<close>

record page_view =
  search_for :: "string \<Rightarrow> rect list"
  character_level_search :: "string \<Rightarrow> rect list"
  fuzzy_search_in_page :: "string \<Rightarrow> int \<Rightarrow> rect list"

text \<open>Strategy 4 and the final \<^verbatim>\<open>return []\<close>.\<close>

definition fuzzy_fallback :: "bool \<Rightarrow> page_view \<Rightarrow> string \<Rightarrow> int option \<Rightarrow> rect list" where
  "fuzzy_fallback rapidfuzz_available page pii_term fuzzy_threshold =
     (case fuzzy_threshold of
        None \<Rightarrow> []
      | Some th \<Rightarrow>
          if th \<noteq> 0 \<and> rapidfuzz_available
          then (let areas = fuzzy_search_in_page page pii_term th in
                if areas \<noteq> [] then areas else [])
          else [])"

definition search_text_with_fallback ::
  "bool \<Rightarrow> page_view \<Rightarrow> string \<Rightarrow> int option \<Rightarrow> rect list" where
  "search_text_with_fallback rapidfuzz_available page pii_term fuzzy_threshold =
     (let areas = search_for page pii_term in
      if areas \<noteq> [] then areas
      else (let areas = search_for page (lower pii_term) in
        if areas \<noteq> [] then areas
        else (let areas = search_for page (upper pii_term) in
          if areas \<noteq> [] then areas
          else if areas = []
          then (let areas = character_level_search page pii_term in
                if areas \<noteq> [] then areas
                else fuzzy_fallback rapidfuzz_available page pii_term fuzzy_threshold)
          else fuzzy_fallback rapidfuzz_available page pii_term fuzzy_threshold)))"

subsection \<open>The cascade as the specification words it\<close>



section \<open>Redaction of a document: \<^verbatim>\<open>legal_redact_pdf\<close>\<close>

type_synonym xref = nat
type_synonym bytes = "nat list"

text \<open>The three forms of \<^verbatim>\<open>page.add_redact_annot\<close> that the source uses.\<close>

datatype annot = Replace_with string | Fill_black | Erase

text \<open>
  The calls on the document, in the order in which they are made. The model of
  \<^verbatim>\<open>legal_redact_pdf\<close> returns this trace.
\<close>

datatype event =
    Add_redact_annot nat rect annot     \<comment> \<open>\<^verbatim>\<open>page.add_redact_annot\<close> on a page\<close>
  | Apply_redactions nat                \<comment> \<open>\<^verbatim>\<open>page.apply_redactions()\<close>\<close>
  | Get_images nat                      \<comment> \<open>\<^verbatim>\<open>page.get_images(full=True)\<close>\<close>
  | Extract_image xref                  \<comment> \<open>\<^verbatim>\<open>doc.extract_image(xref)\<close>\<close>
  | Process_image xref                  \<comment> \<open>\<^verbatim>\<open>process_image_with_ocr\<close> on the image\<close>
  | Delete_image xref                   \<comment> \<open>\<^verbatim>\<open>doc.delete_image(xref)\<close>\<close>
  | Add_image_ref bytes                 \<comment> \<open>\<^verbatim>\<open>doc.add_image_ref\<close>\<close>
  | Replace_image nat xref xref         \<comment> \<open>\<^verbatim>\<open>page.replace_image(xref, new_xref)\<close>\<close>
  | Set_metadata
  | Del_xml_metadata
  | Set_metadata_old                    \<comment> \<open>\<^verbatim>\<open>doc.setMetadata({})\<close>\<close>
  | Save
  | Close

text \<open>
  The document and the image libraries are taken as given. What a call returns may
  depend on the calls made before it, so every answer of the document is a function of
  the trace so far. A call inside the \<^verbatim>\<open>try\<close> block of the image pass may raise, which
  is \<open>Inl\<close> or \<open>False\<close>. The calls of the text pass, \<^verbatim>\<open>fitz.open\<close> and \<^verbatim>\<open>doc.save\<close> are
  outside every handler: an exception there ends the whole call, and the model covers the
  runs in which they return.
\<close>

record world =
  page_count :: nat
  page_at :: "event list \<Rightarrow> nat \<Rightarrow> page_view"
  get_images :: "event list \<Rightarrow> nat \<Rightarrow> xref list"
  extract_image :: "event list \<Rightarrow> xref \<Rightarrow> failure + bytes option"
  pixmap :: "bytes \<Rightarrow> failure + bytes"
  ocr :: "bytes \<Rightarrow> failure + ocr_word list"
  encode :: "bytes \<Rightarrow> draw list \<Rightarrow> failure + bytes"
  delete_image :: "event list \<Rightarrow> xref \<Rightarrow> bool"
  add_image_ref :: "event list \<Rightarrow> bytes \<Rightarrow> failure + xref"
  has_del_xml_metadata :: bool

definition annot_of :: "string \<Rightarrow> string \<Rightarrow> annot" where
  "annot_of method replace_text =
     (if method = ''replace'' then Replace_with replace_text
      else if method = ''obfuscate'' then Fill_black
      else Erase)"

text \<open>The body of \<^verbatim>\<open>for term in pii_terms\<close> on one page.\<close>

definition redact_term ::
  "world \<Rightarrow> fuzz option \<Rightarrow> string \<Rightarrow> string \<Rightarrow> int option \<Rightarrow> nat \<Rightarrow> string \<Rightarrow> event list
     \<Rightarrow> event list" where
  "redact_term w fz method replace_text fuzzy_threshold page_num pii_term h =
     (let areas = search_text_with_fallback (fz \<noteq> None) (page_at w h page_num) pii_term
                    fuzzy_threshold
      in h @ map (\<lambda>r. Add_redact_annot page_num r (annot_of method replace_text)) areas)"

text \<open>The body of the first loop over the pages: the text layer of one page.\<close>

definition text_layer ::
  "world \<Rightarrow> fuzz option \<Rightarrow> string list \<Rightarrow> string \<Rightarrow> string \<Rightarrow> int option \<Rightarrow> nat \<Rightarrow> event list
     \<Rightarrow> event list" where
  "text_layer w fz pii_terms method replace_text fuzzy_threshold page_num h =
     fold (redact_term w fz method replace_text fuzzy_threshold page_num) pii_terms h
     @ [Apply_redactions page_num]"

text \<open>
  \<^verbatim>\<open>process_image_with_ocr\<close> with its surroundings: decoding and OCR, the drawing calls,
  encoding.
\<close>

definition process_image ::
  "world \<Rightarrow> fuzz option \<Rightarrow> bytes \<Rightarrow> string list \<Rightarrow> string \<Rightarrow> string \<Rightarrow> int option
     \<Rightarrow> failure + bytes" where
  "process_image w fz img_bytes pii_terms method replace_text fuzzy_threshold =
     (case ocr w img_bytes of
        Inl e \<Rightarrow> Inl e
      | Inr ocr_result \<Rightarrow>
          encode w img_bytes
            (process_image_with_ocr fz ocr_result pii_terms method replace_text fuzzy_threshold))"

text \<open>
  The body of \<^verbatim>\<open>for img in page.get_images(full=True)\<close>: every exception is caught and
  the loop goes on with the next image.
\<close>

definition image_one ::
  "world \<Rightarrow> fuzz option \<Rightarrow> string list \<Rightarrow> string \<Rightarrow> string \<Rightarrow> int option \<Rightarrow> nat \<Rightarrow> xref
     \<Rightarrow> event list \<Rightarrow> event list" where
  "image_one w fz pii_terms method replace_text fuzzy_threshold page_num xref h =
     (let h1 = h @ [Extract_image xref] in
      case extract_image w h xref of
        Inl _ \<Rightarrow> h1
      | Inr None \<Rightarrow> h1
      | Inr (Some img_bytes) \<Rightarrow>
          (case pixmap w img_bytes of
             Inl _ \<Rightarrow> h1
           | Inr _ \<Rightarrow>
               (let h2 = h1 @ [Process_image xref] in
                case process_image w fz img_bytes pii_terms method replace_text fuzzy_threshold of
                  Inl _ \<Rightarrow> h2
                | Inr processed_bytes \<Rightarrow>
                    (case pixmap w processed_bytes of
                       Inl _ \<Rightarrow> h2
                     | Inr new_bytes \<Rightarrow>
                         (let h3 = h2 @ [Delete_image xref] in
                          if \<not> delete_image w h2 xref then h3
                          else (let h4 = h3 @ [Add_image_ref new_bytes] in
                            case add_image_ref w h3 new_bytes of
                              Inl _ \<Rightarrow> h4
                            | Inr new_xref \<Rightarrow> h4 @ [Replace_image page_num xref new_xref]))))))"

text \<open>The body of the second loop over the pages: the images of one page.\<close>

definition image_layer ::
  "world \<Rightarrow> fuzz option \<Rightarrow> string list \<Rightarrow> string \<Rightarrow> string \<Rightarrow> int option \<Rightarrow> nat \<Rightarrow> event list
     \<Rightarrow> event list" where
  "image_layer w fz pii_terms method replace_text fuzzy_threshold page_num h =
     fold (image_one w fz pii_terms method replace_text fuzzy_threshold page_num)
       (get_images w h page_num) (h @ [Get_images page_num])"

definition clear_metadata :: "world \<Rightarrow> event list \<Rightarrow> event list" where
  "clear_metadata w h =
     h @ [Set_metadata, Del_xml_metadata]
       @ (if has_del_xml_metadata w then [] else [Set_metadata_old])"

definition legal_redact_pdf ::
  "world \<Rightarrow> fuzz option \<Rightarrow> string list option \<Rightarrow> string \<Rightarrow> string \<Rightarrow> int option \<Rightarrow> event list" where
  "legal_redact_pdf w fz pii_terms_opt method replace_text fuzzy_threshold =
     (let pii_terms = (case pii_terms_opt of None \<Rightarrow> [] | Some ts \<Rightarrow> ts);
          h = fold (text_layer w fz pii_terms method replace_text fuzzy_threshold)
                [0 ..< page_count w] [];
          h = fold (image_layer w fz pii_terms method replace_text fuzzy_threshold)
                [0 ..< page_count w] h;
          h = clear_metadata w h
      in h @ [Save, Close])"

text \<open>The events of the text layer, and those of the image layer.\<close>

fun text_event :: "event \<Rightarrow> bool" where
  "text_event (Add_redact_annot p r a) = True"
| "text_event (Apply_redactions p) = True"
| "text_event e = False"

fun image_event :: "event \<Rightarrow> bool" where
  "image_event (Get_images p) = True"
| "image_event (Extract_image x) = True"
| "image_event (Process_image x) = True"
| "image_event (Delete_image x) = True"
| "image_event (Add_image_ref b) = True"
| "image_event (Replace_image p x y) = True"
| "image_event e = False"

text \<open>
  A two-page document for the examples: page 0 has the term \<open>JOHN\<close> in its text layer,
  page 1 has one embedded image whose OCR output is the word \<open>JOHN\<close>.
\<close>

definition example_doc :: world where
  "example_doc =
     \<lparr>page_count = 2,
      page_at = (\<lambda>h n.
         \<lparr>search_for = (\<lambda>t. if n = 0 \<and> t = ''JOHN'' then [(10, 10, 50, 22)] else []),
          character_level_search = (\<lambda>t. []),
          fuzzy_search_in_page = (\<lambda>t th. [])\<rparr>),
      get_images = (\<lambda>h n. if n = 1 then [7] else []),
      extract_image = (\<lambda>h x. Inr (Some [1, 2, 3])),
      pixmap = (\<lambda>b. Inr b),
      ocr = (\<lambda>b. Inr [\<lparr>ocr_text = ''JOHN'', ocr_left = 5, ocr_top = 6, ocr_width = 40,
                         ocr_height = 12\<rparr>]),
      encode = (\<lambda>b ops. Inr (b @ [length ops])),
      delete_image = (\<lambda>h x. True),
      add_image_ref = (\<lambda>h b. Inr 8),
      has_del_xml_metadata = True\<rparr>"

section \<open>Properties of overlap resolution\<close>

lemma overlaps_iff_common_index:
  "overlaps a b \<longleftrightarrow> (\<exists>i. start a \<le> i \<and> i < res_end a \<and> start b \<le> i \<and> i < res_end b)"
proof
  assume "overlaps a b"
  then have "start a \<le> max (start a) (start b) \<and> max (start a) (start b) < res_end a
      \<and> start b \<le> max (start a) (start b) \<and> max (start a) (start b) < res_end b"
    by (simp add: overlaps_def)
  then show "\<exists>i. start a \<le> i \<and> i < res_end a \<and> start b \<le> i \<and> i < res_end b"
    by blast
next
  assume "\<exists>i. start a \<le> i \<and> i < res_end a \<and> start b \<le> i \<and> i < res_end b"
  then show "overlaps a b"
    by (auto simp: overlaps_def)
qed

lemma dedup_loop_greedy:
  "dedup_loop xs (acc, le) = (acc @ greedy_accept le xs, snd (dedup_loop xs (acc, le)))"
proof (induction xs arbitrary: acc le)
  case Nil
  show ?case by simp
next
  case (Cons x xs)
  show ?case
  proof (cases "start x \<ge> le")
    case True
    then show ?thesis
      using Cons.IH [of "acc @ [x]" "res_end x"] by simp
  next
    case False
    then show ?thesis
      using Cons.IH [of acc le] by simp
  qed
qed

lemma fst_dedup_loop: "fst (dedup_loop xs ([], le)) = greedy_accept le xs"
  using dedup_loop_greedy [of xs "[]" le] by (metis append_Nil fst_conv)

lemma precedes_key: "precedes a b \<longleftrightarrow> dedup_key a < dedup_key b"
  by (auto simp: precedes_def dedup_key_def)

lemma stable_insert_insort: "stable_insert x ys = insort_key dedup_key x ys"
  by (induction ys) (auto simp: precedes_key)

lemma stable_sort_spans_sort_key: "stable_sort_spans xs = sort_key dedup_key xs"
  by (induction xs) (simp_all add: stable_insert_insort)

text \<open>
  \<open>stable_sort_spans\<close> is a stable sort for the order \<open>precedes\<close>: its result is
  ordered, and candidates with the same start and confidence keep their relative order.
\<close>

lemma stable_sort_spans_stable:
  "sorted_wrt (\<lambda>a b. \<not> precedes b a) (stable_sort_spans xs)
   \<and> filter (\<lambda>y. dedup_key y = k) (stable_sort_spans xs) = filter (\<lambda>y. dedup_key y = k) xs"
proof
  have "sorted (map dedup_key (sort_key dedup_key xs))" by simp
  then have "sorted_wrt (\<lambda>a b. dedup_key a \<le> dedup_key b) (sort_key dedup_key xs)"
    by (simp add: sorted_map)
  then have "sorted_wrt (\<lambda>a b. \<not> precedes b a) (sort_key dedup_key xs)"
    by (rule sorted_wrt_mono_rel [rotated]) (simp add: precedes_key not_less)
  then show "sorted_wrt (\<lambda>a b. \<not> precedes b a) (stable_sort_spans xs)"
    by (simp add: stable_sort_spans_sort_key)
  show "filter (\<lambda>y. dedup_key y = k) (stable_sort_spans xs) = filter (\<lambda>y. dedup_key y = k) xs"
    by (simp add: stable_sort_spans_sort_key sort_key_stable)
qed

lemma deduplicate_results_greedy:
  "deduplicate_results rs = greedy_accept (- 1) (sort_key dedup_key rs)"
  by (simp add: deduplicate_results_def fst_dedup_loop)

lemma set_greedy_accept: "set (greedy_accept le xs) \<subseteq> set xs"
  by (induction xs arbitrary: le) auto

lemma greedy_accept_lower:
  assumes "sorted (map start xs)" and "y \<in> set (greedy_accept le xs)"
  shows "le \<le> start y"
  using assms
proof (induction xs arbitrary: le)
  case Nil
  then show ?case by simp
next
  case (Cons x xs)
  show ?case
  proof (cases "start x \<ge> le")
    case True
    with Cons.prems have "y = x \<or> y \<in> set (greedy_accept (res_end x) xs)" by simp
    then show ?thesis
    proof
      assume "y = x" with True show ?thesis by simp
    next
      assume "y \<in> set (greedy_accept (res_end x) xs)"
      then have "y \<in> set xs" using set_greedy_accept by blast
      with Cons.prems(1) have "start x \<le> start y" by auto
      with True show ?thesis by simp
    qed
  next
    case False
    with Cons.prems have "y \<in> set (greedy_accept le xs)" and "sorted (map start xs)" by simp_all
    then show ?thesis using Cons.IH by blast
  qed
qed

lemma greedy_accept_chain:
  assumes "sorted (map start xs)"
  shows "sorted_wrt (\<lambda>a b. res_end a \<le> start b) (greedy_accept le xs)"
  using assms
proof (induction xs arbitrary: le)
  case Nil
  show ?case by simp
next
  case (Cons x xs)
  then have s: "sorted (map start xs)" by simp
  show ?case
  proof (cases "start x \<ge> le")
    case True
    have "\<forall>y \<in> set (greedy_accept (res_end x) xs). res_end x \<le> start y"
      using greedy_accept_lower [OF s] by blast
    with True Cons.IH [OF s] show ?thesis by simp
  next
    case False
    with Cons.IH [OF s] show ?thesis by simp
  qed
qed

lemma sorted_start_sort_key: "sorted (map start (sort_key dedup_key rs))"
proof -
  have "sorted (map dedup_key (sort_key dedup_key rs))" by simp
  then have "sorted_wrt (\<lambda>a b. dedup_key a \<le> dedup_key b) (sort_key dedup_key rs)"
    by (simp add: sorted_map)
  then have "sorted_wrt (\<lambda>a b. start a \<le> start b) (sort_key dedup_key rs)"
    by (rule sorted_wrt_mono_rel [rotated]) (auto simp: dedup_key_def)
  then show ?thesis by (simp add: sorted_map)
qed

lemma chain_no_overlap: "res_end a \<le> start b \<Longrightarrow> \<not> overlaps a b"
  by (auto simp: overlaps_def)

text \<open>
  C1. For every input list, \<^verbatim>\<open>_deduplicate_results\<close> computes what the specification
  words (stable sort by start ascending and confidence descending, then the greedy walk
  from the cursor \<open>-1\<close>), and no two spans of its output overlap.
\<close>

theorem deduplicate_results_resolves:
  "deduplicate_results rs = resolve_spec rs \<and>
   (\<forall>i j. i < j \<and> j < length (deduplicate_results rs) \<longrightarrow>
      \<not> overlaps (deduplicate_results rs ! i) (deduplicate_results rs ! j))"
proof
  show "deduplicate_results rs = resolve_spec rs"
    by (simp add: deduplicate_results_greedy resolve_spec_def stable_sort_spans_sort_key)
next
  have "sorted_wrt (\<lambda>a b. res_end a \<le> start b) (deduplicate_results rs)"
    unfolding deduplicate_results_greedy
    by (rule greedy_accept_chain) (rule sorted_start_sort_key)
  then have "sorted_wrt (\<lambda>a b. \<not> overlaps a b) (deduplicate_results rs)"
    by (rule sorted_wrt_mono_rel [rotated]) (simp add: chain_no_overlap)
  then show "\<forall>i j. i < j \<and> j < length (deduplicate_results rs) \<longrightarrow>
      \<not> overlaps (deduplicate_results rs ! i) (deduplicate_results rs ! j)"
    by (simp add: sorted_wrt_iff_nth_less)
qed

theorem deduplicate_results_resolves_witness:
  "(0::nat) < 1 \<and> 1 < length (deduplicate_results
     [\<lparr>res_text = ''bcdef'', entity_type = ''PERSON'', start = 3, res_end = 8, score = 1, match_mode = ''presidio''\<rparr>,
      \<lparr>res_text = ''abcde'', entity_type = ''CUSTOM_KEYWORD'', start = 0, res_end = 5, score = 9/10, match_mode = ''exact''\<rparr>,
      \<lparr>res_text = ''fghi'', entity_type = ''CUSTOM_KEYWORD'', start = 5, res_end = 9, score = 1/2, match_mode = ''fuzzy''\<rparr>])
   \<and> \<not> overlaps
     (deduplicate_results
     [\<lparr>res_text = ''bcdef'', entity_type = ''PERSON'', start = 3, res_end = 8, score = 1, match_mode = ''presidio''\<rparr>,
      \<lparr>res_text = ''abcde'', entity_type = ''CUSTOM_KEYWORD'', start = 0, res_end = 5, score = 9/10, match_mode = ''exact''\<rparr>,
      \<lparr>res_text = ''fghi'', entity_type = ''CUSTOM_KEYWORD'', start = 5, res_end = 9, score = 1/2, match_mode = ''fuzzy''\<rparr>] ! 0)
     (deduplicate_results
     [\<lparr>res_text = ''bcdef'', entity_type = ''PERSON'', start = 3, res_end = 8, score = 1, match_mode = ''presidio''\<rparr>,
      \<lparr>res_text = ''abcde'', entity_type = ''CUSTOM_KEYWORD'', start = 0, res_end = 5, score = 9/10, match_mode = ''exact''\<rparr>,
      \<lparr>res_text = ''fghi'', entity_type = ''CUSTOM_KEYWORD'', start = 5, res_end = 9, score = 1/2, match_mode = ''fuzzy''\<rparr>] ! 1)"
proof -
  let ?rs = "[\<lparr>res_text = ''bcdef'', entity_type = ''PERSON'', start = 3, res_end = 8, score = 1, match_mode = ''presidio''\<rparr>,
      \<lparr>res_text = ''abcde'', entity_type = ''CUSTOM_KEYWORD'', start = 0, res_end = 5, score = 9/10, match_mode = ''exact''\<rparr>,
      \<lparr>res_text = ''fghi'', entity_type = ''CUSTOM_KEYWORD'', start = 5, res_end = 9, score = 1/2, match_mode = ''fuzzy''\<rparr>]"
  have len: "length (deduplicate_results ?rs) = 2"
    by (simp add: deduplicate_results_def dedup_key_def)
  from deduplicate_results_resolves [of ?rs] len show ?thesis
    by (metis One_nat_def Suc_1 lessI zero_less_one)
qed

lemma greedy_accept_idem: "greedy_accept le (greedy_accept le xs) = greedy_accept le xs"
  by (induction xs arbitrary: le) auto

lemma sorted_key_greedy_accept:
  "sorted (map dedup_key xs) \<Longrightarrow> sorted (map dedup_key (greedy_accept le xs))"
proof (induction xs arbitrary: le)
  case Nil
  show ?case by simp
next
  case (Cons x xs)
  then have s: "sorted (map dedup_key xs)" and h: "\<forall>y \<in> set xs. dedup_key x \<le> dedup_key y"
    by simp_all
  have "\<forall>y \<in> set (greedy_accept (res_end x) xs). dedup_key x \<le> dedup_key y"
    using h set_greedy_accept by blast
  with Cons.IH [OF s] show ?case by simp
qed

lemma deduplicate_results_twice:
  "deduplicate_results (deduplicate_results rs) = deduplicate_results rs"
proof -
  let ?out = "greedy_accept (- 1) (sort_key dedup_key rs)"
  have "sorted (map dedup_key ?out)"
    by (rule sorted_key_greedy_accept) simp
  then have "sort_key dedup_key ?out = ?out"
    by (rule sort_key_id_if_sorted)
  then show ?thesis
    by (simp add: deduplicate_results_greedy greedy_accept_idem)
qed

text \<open>
  C10. Overlap resolution is idempotent: its output is sorted by start, every accepted
  span starts at or after the end of the spans accepted before it, and a second call
  returns the output unchanged. So \<^verbatim>\<open>detect\<close>, which calls it twice in a row, returns
  what one call followed by the deny-list filter gives.
\<close>

theorem deduplicate_results_idempotent:
  "deduplicate_results (deduplicate_results rs) = deduplicate_results rs \<and>
   sorted (map start (deduplicate_results rs)) \<and>
   sorted_wrt (\<lambda>a b. res_end a \<le> start b) (deduplicate_results rs) \<and>
   detect analyze fz re_compile txt custom_keywords mode fuzzy_threshold enabled_entities
       min_score =
     (case detect_candidates analyze fz re_compile txt custom_keywords mode fuzzy_threshold
             enabled_entities min_score of
        Inl e \<Rightarrow> Inl e
      | Inr results \<Rightarrow> Inr (filter_deny_list (deduplicate_results results)))"
proof (intro conjI)
  let ?out = "greedy_accept (- 1) (sort_key dedup_key rs)"
  have "sorted (map dedup_key ?out)"
    by (rule sorted_key_greedy_accept) simp
  show "deduplicate_results (deduplicate_results rs) = deduplicate_results rs"
    by (rule deduplicate_results_twice)
  show "detect analyze fz re_compile txt custom_keywords mode fuzzy_threshold enabled_entities
       min_score =
     (case detect_candidates analyze fz re_compile txt custom_keywords mode fuzzy_threshold
             enabled_entities min_score of
        Inl e \<Rightarrow> Inl e
      | Inr results \<Rightarrow> Inr (filter_deny_list (deduplicate_results results)))"
    by (simp add: detect_def deduplicate_results_twice split: sum.splits)
  have "sorted_wrt (\<lambda>a b. dedup_key a \<le> dedup_key b) ?out"
    using \<open>sorted (map dedup_key ?out)\<close> by (simp add: sorted_map)
  then have "sorted_wrt (\<lambda>a b. start a \<le> start b) ?out"
    by (rule sorted_wrt_mono_rel [rotated]) (auto simp: dedup_key_def)
  then show "sorted (map start (deduplicate_results rs))"
    by (simp add: deduplicate_results_greedy sorted_map)
  show "sorted_wrt (\<lambda>a b. res_end a \<le> start b) (deduplicate_results rs)"
    unfolding deduplicate_results_greedy
    by (rule greedy_accept_chain) (rule sorted_start_sort_key)
qed

section \<open>Properties of the label heuristic\<close>

text \<open>
  C5. On the input \<open>Father Name  KISHOR KUMAR\<close> the label heuristic returns exactly one
  span: its text is \<open>KISHOR KUMAR\<close>, its category is \<open>PERSON\<close> with confidence 0.85, the
  label tokens \<open>Father\<close> and \<open>Name\<close> do not occur in its text (in any case), and its
  character range 13 to 25 is the range of the captured value in the input, after the
  label.
\<close>

theorem label_heuristic_father_name:
  "detect_label_based_names ''Father Name  KISHOR KUMAR'' =
     [\<lparr>res_text = ''KISHOR KUMAR'', entity_type = ''PERSON'', start = 13, res_end = 25,
       score = 85 / 100, match_mode = ''label_heuristic''\<rparr>]
   \<and> \<not> contains ''Father'' ''KISHOR KUMAR''
   \<and> \<not> contains ''Name'' ''KISHOR KUMAR''
   \<and> \<not> contains (lower ''Father'') (lower ''KISHOR KUMAR'')
   \<and> \<not> contains (lower ''Name'') (lower ''KISHOR KUMAR'')
   \<and> slice ''Father Name  KISHOR KUMAR'' 13 25 = ''KISHOR KUMAR''
   \<and> slice ''Father Name  KISHOR KUMAR'' 0 13 = ''Father Name  ''"
proof (intro conjI)
  show "detect_label_based_names ''Father Name  KISHOR KUMAR'' =
     [\<lparr>res_text = ''KISHOR KUMAR'', entity_type = ''PERSON'', start = 13, res_end = 25,
       score = 85 / 100, match_mode = ''label_heuristic''\<rparr>]"
    by code_simp
  show "\<not> contains ''Father'' ''KISHOR KUMAR''" by code_simp
  show "\<not> contains ''Name'' ''KISHOR KUMAR''" by code_simp
  show "\<not> contains (lower ''Father'') (lower ''KISHOR KUMAR'')" by code_simp
  show "\<not> contains (lower ''Name'') (lower ''KISHOR KUMAR'')" by code_simp
  show "slice ''Father Name  KISHOR KUMAR'' 13 25 = ''KISHOR KUMAR''" by code_simp
  show "slice ''Father Name  KISHOR KUMAR'' 0 13 = ''Father Name  ''" by code_simp
qed

section \<open>Properties of the span offsets\<close>

text \<open>
  C3. The spans of exact keyword matching and of the label heuristic do not always carry
  the range of their text. For the keyword \<open>john\<close> written with a space on either side,
  the text \<open>john\<close> gives a span from 0 to 6, beyond the four characters of the input. For
  the input \<open>Name: JOHN\<close> with a space after it, the label heuristic gives the stripped
  text \<open>JOHN\<close> with the range 6 to 11, which holds \<open>JOHN\<close> and the space.
\<close>

theorem span_offsets_diverge:
  "exact_match ''john'' ['' john ''] =
     [\<lparr>res_text = ''john'', entity_type = ''CUSTOM_KEYWORD'', start = 0, res_end = 6,
       score = 1, match_mode = ''exact''\<rparr>]
   \<and> length ''john'' = 4
   \<and> detect_label_based_names ''Name: JOHN '' =
     [\<lparr>res_text = ''JOHN'', entity_type = ''PERSON'', start = 6, res_end = 11,
       score = 85 / 100, match_mode = ''label_heuristic''\<rparr>]
   \<and> slice ''Name: JOHN '' 6 11 = ''JOHN ''"
proof (intro conjI)
  show "exact_match ''john'' ['' john ''] =
     [\<lparr>res_text = ''john'', entity_type = ''CUSTOM_KEYWORD'', start = 0, res_end = 6,
       score = 1, match_mode = ''exact''\<rparr>]"
    by code_simp
  show "length ''john'' = 4" by simp
  show "detect_label_based_names ''Name: JOHN '' =
     [\<lparr>res_text = ''JOHN'', entity_type = ''PERSON'', start = 6, res_end = 11,
       score = 85 / 100, match_mode = ''label_heuristic''\<rparr>]"
    by code_simp
  show "slice ''Name: JOHN '' 6 11 = ''JOHN ''" by code_simp
qed

section \<open>Properties of the deny-list filter\<close>

lemma find_in_Some:
  "find_in sub t i = Some idx \<Longrightarrow> \<exists>a b. t = a @ sub @ b \<and> idx = i + length a"
proof (induction t arbitrary: i)
  case Nil
  then show ?case by (simp split: if_splits)
next
  case (Cons c cs)
  show ?case
  proof (cases "take (length sub) (c # cs) = sub")
    case True
    then have "c # cs = [] @ sub @ drop (length sub) (c # cs)"
      by (metis append_Nil append_take_drop_id)
    moreover from True Cons.prems have "idx = i" by simp
    ultimately show ?thesis by (metis add.right_neutral list.size(3))
  next
    case False
    with Cons.prems have "find_in sub cs (Suc i) = Some idx" by simp
    from Cons.IH [OF this] obtain a b where "cs = a @ sub @ b" "idx = Suc i + length a" by blast
    then have "c # cs = (c # a) @ sub @ b \<and> idx = i + length (c # a)" by simp
    then show ?thesis by blast
  qed
qed

lemma find_in_None: "find_in sub t i = None \<Longrightarrow> t \<noteq> a @ sub @ b"
proof (induction t arbitrary: i a)
  case Nil
  then show ?case by (simp split: if_splits)
next
  case (Cons c cs)
  then have ne: "take (length sub) (c # cs) \<noteq> sub" and rec: "find_in sub cs (Suc i) = None"
    by (simp_all split: if_splits)
  show ?case
  proof (cases a)
    case Nil
    with ne show ?thesis by auto
  next
    case (Cons d a')
    with Cons.IH [OF rec, of a'] show ?thesis by auto
  qed
qed

lemma contains_iff: "contains sub s \<longleftrightarrow> (\<exists>a b. s = a @ sub @ b)"
proof
  assume "contains sub s"
  then obtain idx where "find_in sub s 0 = Some idx"
    by (auto simp: contains_def find_str_def)
  from find_in_Some [OF this] show "\<exists>a b. s = a @ sub @ b" by blast
next
  assume "\<exists>a b. s = a @ sub @ b"
  then obtain a b where "s = a @ sub @ b" by blast
  then have "find_in sub s 0 \<noteq> None" using find_in_None by blast
  then show "contains sub s" by (simp add: contains_def find_str_def)
qed

lemma infix_dropWhile:
  assumes "sub \<noteq> []" and "\<forall>c \<in> set sub. \<not> P c"
  shows "(\<exists>a b. dropWhile P s = a @ sub @ b) \<longleftrightarrow> (\<exists>a b. s = a @ sub @ b)"
proof
  assume "\<exists>a b. dropWhile P s = a @ sub @ b"
  then obtain a b where "dropWhile P s = a @ sub @ b" by blast
  then have "s = (takeWhile P s @ a) @ sub @ b"
    by (metis append.assoc takeWhile_dropWhile_id)
  then show "\<exists>a b. s = a @ sub @ b" by blast
next
  assume "\<exists>a b. s = a @ sub @ b"
  then obtain a b where s: "s = a @ sub @ b" by blast
  then show "\<exists>a b. dropWhile P s = a @ sub @ b"
  proof (induction s arbitrary: a)
    case Nil
    with assms show ?case by simp
  next
    case (Cons c cs)
    show ?case
    proof (cases "P c")
      case False
      then have "dropWhile P (c # cs) = c # cs" by simp
      with Cons.prems show ?thesis by metis
    next
      case True
      have "a \<noteq> []"
      proof
        assume "a = []"
        with Cons.prems have "c = hd sub" using assms(1) by (cases sub) auto
        with assms True show False by (cases sub) auto
      qed
      then obtain a' where "a = c # a'" using Cons.prems by (cases a) auto
      with Cons.prems have "cs = a' @ sub @ b" by simp
      from Cons.IH [OF this] True show ?thesis by simp
    qed
  qed
qed

lemma infix_strip:
  assumes "sub \<noteq> []" and "\<forall>c \<in> set sub. \<not> is_space c"
  shows "(\<exists>a b. strip s = a @ sub @ b) \<longleftrightarrow> (\<exists>a b. s = a @ sub @ b)"
proof -
  have r: "rev sub \<noteq> []" "\<forall>c \<in> set (rev sub). \<not> is_space c" using assms by simp_all
  have flip: "(\<exists>a b. rev t = a @ rev sub @ b) \<longleftrightarrow> (\<exists>a b. t = a @ sub @ b)" for t
  proof
    assume "\<exists>a b. rev t = a @ rev sub @ b"
    then obtain a b where "rev t = a @ rev sub @ b" by blast
    then have "t = rev b @ sub @ rev a" by (metis append.assoc rev_append rev_rev_ident)
    then show "\<exists>a b. t = a @ sub @ b" by blast
  next
    assume "\<exists>a b. t = a @ sub @ b"
    then obtain a b where "t = a @ sub @ b" by blast
    then have "rev t = rev b @ rev sub @ rev a" by simp
    then show "\<exists>a b. rev t = a @ rev sub @ b" by blast
  qed
  have "(\<exists>a b. strip s = a @ sub @ b)
      \<longleftrightarrow> (\<exists>a b. dropWhile is_space (rev (dropWhile is_space s)) = a @ rev sub @ b)"
    using flip [of "rev (dropWhile is_space (rev (dropWhile is_space s)))"]
    by (simp add: strip_def)
  also have "\<dots> \<longleftrightarrow> (\<exists>a b. rev (dropWhile is_space s) = a @ rev sub @ b)"
    by (rule infix_dropWhile [OF r])
  also have "\<dots> \<longleftrightarrow> (\<exists>a b. dropWhile is_space s = a @ sub @ b)"
    by (rule flip)
  also have "\<dots> \<longleftrightarrow> (\<exists>a b. s = a @ sub @ b)"
    by (rule infix_dropWhile [OF assms])
  finally show ?thesis .
qed

lemma contains_name_strip: "contains ''name'' (strip s) = contains ''name'' s"
proof -
  have "\<forall>c \<in> set ''name''. \<not> is_space c" by code_simp
  then show ?thesis
    using infix_strip [of "''name''" s] by (simp add: contains_iff)
qed

lemma split_aux_spaces:
  "\<forall>c \<in> set ws. is_space c \<Longrightarrow> split_aux cur ws = (if cur = [] then [] else [cur])"
  by (induction ws arbitrary: cur) auto

lemma split_aux_append_spaces:
  "\<forall>c \<in> set ws. is_space c \<Longrightarrow> split_aux cur (s @ ws) = split_aux cur s"
  by (induction s arbitrary: cur) (auto simp: split_aux_spaces)

lemma split_aux_dropWhile: "split_aux [] (dropWhile is_space s) = split_aux [] s"
  by (induction s) auto

lemma split_strip: "split (strip s) = split s"
proof -
  let ?d = "dropWhile is_space s"
  have "?d = rev (dropWhile is_space (rev ?d)) @ rev (takeWhile is_space (rev ?d))"
    by (metis rev_append rev_rev_ident takeWhile_dropWhile_id)
  moreover have "\<forall>c \<in> set (rev (takeWhile is_space (rev ?d))). is_space c"
    by (auto dest: set_takeWhileD)
  ultimately have "split_aux [] ?d = split_aux [] (rev (dropWhile is_space (rev ?d)))"
    by (metis split_aux_append_spaces)
  then show ?thesis
    by (simp add: split_def strip_def split_aux_dropWhile)
qed

lemma deny_loop_filter:
  "deny_loop rs acc = acc @ filter (\<lambda>r. \<not> on_deny_list r \<and> \<not> short_name_header r) rs"
proof (induction rs arbitrary: acc)
  case Nil
  show ?case by simp
next
  case (Cons r rs)
  have h: "(contains ''name'' (strip (lower (res_text r)))
        \<and> length (split (strip (lower (res_text r)))) \<le> 2) = short_name_header r"
    by (simp add: short_name_header_def contains_name_strip split_strip)
  show ?case
    using Cons.IH h by (auto simp: Let_def on_deny_list_def)
qed

text \<open>
  C6. \<^verbatim>\<open>_filter_deny_list\<close> keeps, in their order, exactly the spans that are neither on
  the deny list (by their lowercased, trimmed text) nor a text of at most two words that
  contains \<open>name\<close>; so every span of its output satisfies both conditions.
\<close>

theorem filter_deny_list_keeps:
  "filter_deny_list rs = filter (\<lambda>r. \<not> on_deny_list r \<and> \<not> short_name_header r) rs
   \<and> (\<forall>r \<in> set (filter_deny_list rs). \<not> on_deny_list r \<and> \<not> short_name_header r)"
  by (simp add: filter_deny_list_def deny_loop_filter)

theorem filter_deny_list_keeps_witness:
  "filter_deny_list
     [\<lparr>res_text = ''Father Name'', entity_type = ''PERSON'', start = 0, res_end = 11, score = 85 / 100, match_mode = ''presidio''\<rparr>,
      \<lparr>res_text = '' College '', entity_type = ''LOCATION'', start = 20, res_end = 29, score = 85 / 100, match_mode = ''presidio''\<rparr>,
      \<lparr>res_text = ''KISHOR KUMAR'', entity_type = ''PERSON'', start = 40, res_end = 52, score = 85 / 100, match_mode = ''label_heuristic''\<rparr>]
   = [\<lparr>res_text = ''KISHOR KUMAR'', entity_type = ''PERSON'', start = 40, res_end = 52, score = 85 / 100, match_mode = ''label_heuristic''\<rparr>]
   \<and> \<not> on_deny_list \<lparr>res_text = ''KISHOR KUMAR'', entity_type = ''PERSON'', start = 40, res_end = 52, score = 85 / 100, match_mode = ''label_heuristic''\<rparr>
   \<and> \<not> short_name_header \<lparr>res_text = ''KISHOR KUMAR'', entity_type = ''PERSON'', start = 40, res_end = 52, score = 85 / 100, match_mode = ''label_heuristic''\<rparr>"
proof -
  let ?rs = "[\<lparr>res_text = ''Father Name'', entity_type = ''PERSON'', start = 0, res_end = 11, score = 85 / 100, match_mode = ''presidio''\<rparr>,
      \<lparr>res_text = '' College '', entity_type = ''LOCATION'', start = 20, res_end = 29, score = 85 / 100, match_mode = ''presidio''\<rparr>,
      \<lparr>res_text = ''KISHOR KUMAR'', entity_type = ''PERSON'', start = 40, res_end = 52, score = 85 / 100, match_mode = ''label_heuristic''\<rparr>]"
  let ?c = "\<lparr>res_text = ''KISHOR KUMAR'', entity_type = ''PERSON'', start = 40, res_end = 52, score = 85 / 100, match_mode = ''label_heuristic''\<rparr>"
  have out: "filter_deny_list ?rs = [?c]"
    by code_simp
  then have "?c \<in> set (filter_deny_list ?rs)"
    by simp
  with filter_deny_list_keeps [of ?rs] have "\<not> on_deny_list ?c \<and> \<not> short_name_header ?c"
    by blast
  with out show ?thesis by simp
qed
section \<open>Properties of fuzzy keyword matching\<close>

lemma fuzzy_keywords_at_most_one:
  "length (fuzzy_keywords fz word word_start word_end kws threshold) \<le> 1"
  by (induction kws) (auto simp: Let_def)

lemma fuzzy_keywords_antitone:
  "t1 \<le> t2 \<Longrightarrow>
   length (fuzzy_keywords fz word word_start word_end kws t2)
     \<le> length (fuzzy_keywords fz word word_start word_end kws t1)"
proof (induction kws)
  case Nil
  show ?case by simp
next
  case (Cons k ks)
  have le: "(of_int t1 :: real) \<le> of_int t2"
    using Cons.prems by simp
  have one: "length (fuzzy_keywords fz word word_start word_end ks t2) \<le> 1"
    by (rule fuzzy_keywords_at_most_one)
  from Cons.IH [OF Cons.prems] le one show ?case
    by (auto simp: Let_def)
qed

lemma length_concat_map_mono:
  "(\<And>x. x \<in> set xs \<Longrightarrow> length (f x) \<le> length (g x)) \<Longrightarrow>
   length (concat (map f xs)) \<le> length (concat (map g xs))"
  by (induction xs) (auto simp: add_le_mono)

lemma length_concat_map_le:
  "(\<And>x. x \<in> set xs \<Longrightarrow> length (f x) \<le> 1) \<Longrightarrow> length (concat (map f xs)) \<le> length xs"
proof (induction xs)
  case Nil
  show ?case by simp
next
  case (Cons x xs)
  then have "length (f x) \<le> 1" and "length (concat (map f xs)) \<le> length xs" by simp_all
  then show ?case by simp
qed

text \<open>
  C4. Fuzzy keyword matching is threshold-monotonic: for a fixed text and keyword list,
  raising the threshold never increases the number of spans returned. Every word token
  of the text contributes at most one span. This holds whatever the two similarity
  functions return.
\<close>

theorem fuzzy_match_threshold_monotone:
  "t1 \<le> t2 \<Longrightarrow>
   length (fuzzy_match fz txt keywords t2) \<le> length (fuzzy_match fz txt keywords t1)
   \<and> length (fuzzy_match fz txt keywords t2) \<le> length (finditer False word_pattern txt)"
proof
  assume t: "t1 \<le> t2"
  show "length (fuzzy_match fz txt keywords t2) \<le> length (fuzzy_match fz txt keywords t1)"
    unfolding fuzzy_match_def
    by (rule length_concat_map_mono) (auto simp: fuzzy_keywords_antitone [OF t])
  show "length (fuzzy_match fz txt keywords t2) \<le> length (finditer False word_pattern txt)"
    unfolding fuzzy_match_def
    by (rule length_concat_map_le) (use fuzzy_keywords_at_most_one in auto)
qed

theorem fuzzy_match_threshold_monotone_witness:
  "(70 :: int) \<le> 85
   \<and> length (fuzzy_match rapidfuzz ''Jon Smith met J0HN'' [''john'', ''smyth''] 85)
       \<le> length (fuzzy_match rapidfuzz ''Jon Smith met J0HN'' [''john'', ''smyth''] 70)
   \<and> length (fuzzy_match rapidfuzz ''Jon Smith met J0HN'' [''john'', ''smyth''] 85) = 1
   \<and> length (fuzzy_match rapidfuzz ''Jon Smith met J0HN'' [''john'', ''smyth''] 70) = 3"
proof -
  have h: "(70 :: int) \<le> 85" by simp
  have a: "length (fuzzy_match rapidfuzz ''Jon Smith met J0HN'' [''john'', ''smyth''] 85) = 1"
    by code_simp
  have b: "length (fuzzy_match rapidfuzz ''Jon Smith met J0HN'' [''john'', ''smyth''] 70) = 3"
    by code_simp
  from fuzzy_match_threshold_monotone [OF h, of rapidfuzz "''Jon Smith met J0HN''" "[''john'', ''smyth'']"]
    h a b show ?thesis by simp
qed

section \<open>Properties of regex keyword matching\<close>




section \<open>Properties of the raster layer\<close>

lemma term_loop_enabled:
  "th \<noteq> 0 \<Longrightarrow>
   term_loop (Some f) txt ts (Some th) = raster_match_spec f txt ts (Some th)"
  by (induction ts) (auto simp: raster_match_spec_def)

lemma term_loop_disabled:
  "fz = None \<or> \<not> truthy fuzzy_threshold \<Longrightarrow>
   term_loop fz txt ts fuzzy_threshold = raster_match_spec f txt ts None"
  by (induction ts) (auto simp: raster_match_spec_def truthy_def split: option.splits)

text \<open>
  C2, as the code has it. The OCR word \<open>J0HN\<close> and the term \<open>JOHN\<close> have the whole-word
  ratio 75: the word is matched, and its region redacted, at the threshold 75, and is
  matched neither at 85 nor at 100. A word is matched if and only if some term is a
  case-insensitive substring of it, or, when RapidFuzz is available and a threshold other
  than 0 is set, the whole-word ratio of some term meets the threshold, or the partial
  ratio of some term longer than 4 characters does. Without RapidFuzz, and with no
  threshold or the threshold 0, only the substring test counts.
\<close>

theorem raster_match_rule:
  "term_loop (Some f) txt ts fuzzy_threshold =
     raster_match_spec f txt ts (if truthy fuzzy_threshold then fuzzy_threshold else None)
   \<and> term_loop None txt ts fuzzy_threshold = raster_match_spec f txt ts None
   \<and> process_image_with_ocr (Some f) [w] ts method replace_text fuzzy_threshold =
       (if strip (ocr_text w) \<noteq> []
           \<and> raster_match_spec f (strip (ocr_text w)) ts
                (if truthy fuzzy_threshold then fuzzy_threshold else None)
        then redact_word method replace_text w else [])
   \<and> ratio rapidfuzz (lower ''J0HN'') (lower ''JOHN'') = 75
   \<and> term_loop (Some rapidfuzz) ''J0HN'' [''JOHN''] (Some 75)
   \<and> \<not> term_loop (Some rapidfuzz) ''J0HN'' [''JOHN''] (Some 85)
   \<and> \<not> term_loop (Some rapidfuzz) ''J0HN'' [''JOHN''] (Some 100)
   \<and> process_image_with_ocr (Some rapidfuzz)
        [\<lparr>ocr_text = ''J0HN'', ocr_left = 10, ocr_top = 20, ocr_width = 40, ocr_height = 12\<rparr>]
        [''JOHN''] ''obfuscate'' ''[REDACTED]'' (Some 75) = [Rectangle 10 20 50 32 Black]"
proof -
  have a: "term_loop (Some f) t ts fuzzy_threshold =
     raster_match_spec f t ts (if truthy fuzzy_threshold then fuzzy_threshold else None)" for t
  proof (cases "truthy fuzzy_threshold")
    case True
    then obtain th where "fuzzy_threshold = Some th" "th \<noteq> 0"
      by (auto simp: truthy_def split: option.splits)
    with True show ?thesis by (simp add: term_loop_enabled)
  next
    case False
    then show ?thesis using term_loop_disabled [of "Some f" fuzzy_threshold t ts f] by simp
  qed
  show ?thesis
  proof (intro conjI)
  show "term_loop (Some f) txt ts fuzzy_threshold =
     raster_match_spec f txt ts (if truthy fuzzy_threshold then fuzzy_threshold else None)"
    by (rule a)
  show "term_loop None txt ts fuzzy_threshold = raster_match_spec f txt ts None"
    by (simp add: term_loop_disabled)
  show "process_image_with_ocr (Some f) [w] ts method replace_text fuzzy_threshold =
       (if strip (ocr_text w) \<noteq> []
           \<and> raster_match_spec f (strip (ocr_text w)) ts
                (if truthy fuzzy_threshold then fuzzy_threshold else None)
        then redact_word method replace_text w else [])"
    using a [of "strip (ocr_text w)"] by (simp add: process_image_with_ocr_def Let_def)
  show "ratio rapidfuzz (lower ''J0HN'') (lower ''JOHN'') = 75" by code_simp
  show "term_loop (Some rapidfuzz) ''J0HN'' [''JOHN''] (Some 75)" by code_simp
  show "\<not> term_loop (Some rapidfuzz) ''J0HN'' [''JOHN''] (Some 85)" by code_simp
  show "\<not> term_loop (Some rapidfuzz) ''J0HN'' [''JOHN''] (Some 100)" by code_simp
  show "process_image_with_ocr (Some rapidfuzz)
        [\<lparr>ocr_text = ''J0HN'', ocr_left = 10, ocr_top = 20, ocr_width = 40, ocr_height = 12\<rparr>]
        [''JOHN''] ''obfuscate'' ''[REDACTED]'' (Some 75) = [Rectangle 10 20 50 32 Black]"
    by code_simp
  qed
qed

text \<open>
  At the threshold 85 the word \<open>J0HN\<close> is not matched and nothing is drawn on its
  region. At the threshold 0 the rule of the specification matches it (every ratio is at
  least 0), and the code, for which a threshold of 0 is no threshold, does not.
\<close>

theorem raster_j0hn_threshold_85_counterexample:
  "\<not> term_loop (Some rapidfuzz) ''J0HN'' [''JOHN''] (Some 85)
   \<and> process_image_with_ocr (Some rapidfuzz)
        [\<lparr>ocr_text = ''J0HN'', ocr_left = 10, ocr_top = 20, ocr_width = 40, ocr_height = 12\<rparr>]
        [''JOHN''] ''obfuscate'' ''[REDACTED]'' (Some 85) = []
   \<and> raster_match_spec rapidfuzz ''J0HN'' [''JOHN''] (Some 0)
   \<and> \<not> term_loop (Some rapidfuzz) ''J0HN'' [''JOHN''] (Some 0)"
proof (intro conjI)
  show "\<not> term_loop (Some rapidfuzz) ''J0HN'' [''JOHN''] (Some 85)" by code_simp
  show "process_image_with_ocr (Some rapidfuzz)
        [\<lparr>ocr_text = ''J0HN'', ocr_left = 10, ocr_top = 20, ocr_width = 40, ocr_height = 12\<rparr>]
        [''JOHN''] ''obfuscate'' ''[REDACTED]'' (Some 85) = []"
    by code_simp
  show "raster_match_spec rapidfuzz ''J0HN'' [''JOHN''] (Some 0)" by code_simp
  show "\<not> term_loop (Some rapidfuzz) ''J0HN'' [''JOHN''] (Some 0)" by code_simp
qed

section \<open>Properties of position resolution\<close>



section \<open>Properties of the redaction of a document\<close>

lemma fold_extends:
  assumes "\<And>x h. \<exists>t. f x h = h @ t \<and> (\<forall>e \<in> set t. P e)"
  shows "\<exists>t. fold f xs h = h @ t \<and> (\<forall>e \<in> set t. P e)"
proof (induction xs arbitrary: h)
  case Nil
  show ?case by simp
next
  case (Cons x xs)
  from assms obtain t1 where t1: "f x h = h @ t1" "\<forall>e \<in> set t1. P e" by blast
  from Cons.IH obtain t2 where t2: "fold f xs (h @ t1) = (h @ t1) @ t2" "\<forall>e \<in> set t2. P e"
    by blast
  from t1 t2 have "fold f (x # xs) h = h @ (t1 @ t2) \<and> (\<forall>e \<in> set (t1 @ t2). P e)"
    by auto
  then show ?case by blast
qed

lemma redact_term_extends:
  "\<exists>t. redact_term w fz method replace_text fuzzy_threshold page_num pii_term h = h @ t
       \<and> (\<forall>e \<in> set t. text_event e)"
  by (auto simp: redact_term_def Let_def)

lemma text_layer_extends:
  "\<exists>t. text_layer w fz pii_terms method replace_text fuzzy_threshold page_num h = h @ t
       \<and> (\<forall>e \<in> set t. text_event e) \<and> Apply_redactions page_num \<in> set t"
proof -
  from fold_extends [of "redact_term w fz method replace_text fuzzy_threshold page_num"
      text_event pii_terms h, OF redact_term_extends]
  obtain t where t: "fold (redact_term w fz method replace_text fuzzy_threshold page_num)
      pii_terms h = h @ t" "\<forall>e \<in> set t. text_event e"
    by blast
  then have "text_layer w fz pii_terms method replace_text fuzzy_threshold page_num h
      = h @ (t @ [Apply_redactions page_num])
    \<and> (\<forall>e \<in> set (t @ [Apply_redactions page_num]). text_event e)
    \<and> Apply_redactions page_num \<in> set (t @ [Apply_redactions page_num])"
    by (simp add: text_layer_def)
  then show ?thesis by blast
qed

lemma text_pass_extends:
  "\<exists>t. fold (text_layer w fz pii_terms method replace_text fuzzy_threshold) ps h = h @ t
       \<and> (\<forall>e \<in> set t. text_event e) \<and> (\<forall>p \<in> set ps. Apply_redactions p \<in> set t)"
proof (induction ps arbitrary: h)
  case Nil
  show ?case by simp
next
  case (Cons p ps)
  from text_layer_extends [of w fz pii_terms "method" replace_text fuzzy_threshold p h]
  obtain t1 where t1:
    "text_layer w fz pii_terms method replace_text fuzzy_threshold p h = h @ t1"
    "\<forall>e \<in> set t1. text_event e" "Apply_redactions p \<in> set t1"
    by blast
  from Cons.IH [of "h @ t1"] obtain t2 where t2:
    "fold (text_layer w fz pii_terms method replace_text fuzzy_threshold) ps (h @ t1)
       = (h @ t1) @ t2"
    "\<forall>e \<in> set t2. text_event e" "\<forall>q \<in> set ps. Apply_redactions q \<in> set t2"
    by blast
  from t1 t2 have
    "fold (text_layer w fz pii_terms method replace_text fuzzy_threshold) (p # ps) h
       = h @ (t1 @ t2)
     \<and> (\<forall>e \<in> set (t1 @ t2). text_event e)
     \<and> (\<forall>q \<in> set (p # ps). Apply_redactions q \<in> set (t1 @ t2))"
    by auto
  then show ?case by blast
qed

lemma image_one_extends:
  "\<exists>t. image_one w fz pii_terms method replace_text fuzzy_threshold page_num xref h = h @ t
       \<and> (\<forall>e \<in> set t. image_event e)"
  by (auto simp: image_one_def Let_def split: sum.splits option.splits)

lemma image_layer_extends:
  "\<exists>t. image_layer w fz pii_terms method replace_text fuzzy_threshold page_num h = h @ t
       \<and> (\<forall>e \<in> set t. image_event e)"
proof -
  from fold_extends [of "image_one w fz pii_terms method replace_text fuzzy_threshold page_num"
      image_event "get_images w h page_num" "h @ [Get_images page_num]", OF image_one_extends]
  obtain t where t:
    "fold (image_one w fz pii_terms method replace_text fuzzy_threshold page_num)
       (get_images w h page_num) (h @ [Get_images page_num]) = (h @ [Get_images page_num]) @ t"
    "\<forall>e \<in> set t. image_event e"
    by blast
  then have "image_layer w fz pii_terms method replace_text fuzzy_threshold page_num h
      = h @ (Get_images page_num # t) \<and> (\<forall>e \<in> set (Get_images page_num # t). image_event e)"
    by (simp add: image_layer_def)
  then show ?thesis by blast
qed

lemma text_not_image: "text_event e \<Longrightarrow> \<not> image_event e"
  by (cases e) simp_all

lemma two_passes_order:
  assumes tr: "tr = t1 @ t2 @ t3"
    and t1: "\<forall>e \<in> set t1. text_event e"
    and t2: "\<forall>e \<in> set t2. image_event e"
    and t3: "\<forall>e \<in> set t3. \<not> text_event e \<and> \<not> image_event e"
    and i: "i < length tr" "image_event (tr ! i)"
    and j: "j < length tr" "text_event (tr ! j)"
  shows "j < length t1 \<and> length t1 \<le> i"
proof
  show "j < length t1"
  proof (rule ccontr)
    assume "\<not> j < length t1"
    with tr j(1) have "tr ! j \<in> set (t2 @ t3)"
      by (simp add: nth_append)
    with t2 t3 j(2) text_not_image show False by auto
  qed
  show "length t1 \<le> i"
  proof (rule ccontr)
    assume "\<not> length t1 \<le> i"
    with tr have "tr ! i \<in> set t1" by (simp add: nth_append)
    with t1 i(2) text_not_image show False by auto
  qed
qed

text \<open>
  C8. The trace of \<^verbatim>\<open>legal_redact_pdf\<close> is the text pass, then the image pass, then the
  closing calls. The text pass holds the redaction annotations and one
  \<^verbatim>\<open>apply_redactions\<close> for every page of the document, and no call on an image; the
  image pass holds only calls on images. So every call of the text layer, on any page,
  comes before every call that lists, extracts, processes or replaces an image.
\<close>

theorem legal_redact_pdf_two_passes:
  "(\<exists>t1 t2 t3.
      legal_redact_pdf w fz pii_terms_opt method replace_text fuzzy_threshold = t1 @ t2 @ t3
      \<and> (\<forall>e \<in> set t1. text_event e)
      \<and> (\<forall>p < page_count w. Apply_redactions p \<in> set t1)
      \<and> (\<forall>e \<in> set t2. image_event e)
      \<and> (\<forall>e \<in> set t3. \<not> text_event e \<and> \<not> image_event e))
   \<and> (\<forall>i j. i < length (legal_redact_pdf w fz pii_terms_opt method replace_text fuzzy_threshold)
         \<and> j < length (legal_redact_pdf w fz pii_terms_opt method replace_text fuzzy_threshold)
         \<and> image_event
             (legal_redact_pdf w fz pii_terms_opt method replace_text fuzzy_threshold ! i)
         \<and> text_event
             (legal_redact_pdf w fz pii_terms_opt method replace_text fuzzy_threshold ! j)
         \<longrightarrow> j < i)"
proof -
  let ?tr = "legal_redact_pdf w fz pii_terms_opt method replace_text fuzzy_threshold"
  let ?ts = "case pii_terms_opt of None \<Rightarrow> [] | Some ts \<Rightarrow> ts"
  from text_pass_extends [of w fz ?ts "method" replace_text fuzzy_threshold "[0 ..< page_count w]" "[]"]
  obtain t1 where t1:
    "fold (text_layer w fz ?ts method replace_text fuzzy_threshold) [0 ..< page_count w] [] = t1"
    "\<forall>e \<in> set t1. text_event e"
    "\<forall>p \<in> set [0 ..< page_count w]. Apply_redactions p \<in> set t1"
    by auto
  from fold_extends [of "image_layer w fz ?ts method replace_text fuzzy_threshold" image_event
      "[0 ..< page_count w]" t1, OF image_layer_extends]
  obtain t2 where t2:
    "fold (image_layer w fz ?ts method replace_text fuzzy_threshold) [0 ..< page_count w] t1
       = t1 @ t2"
    "\<forall>e \<in> set t2. image_event e"
    by blast
  let ?t3 = "[Set_metadata, Del_xml_metadata]
       @ (if has_del_xml_metadata w then [] else [Set_metadata_old]) @ [Save, Close]"
  have tr: "?tr = t1 @ t2 @ ?t3"
    using t1(1) t2(1) by (simp add: legal_redact_pdf_def clear_metadata_def Let_def)
  have t3: "\<forall>e \<in> set ?t3. \<not> text_event e \<and> \<not> image_event e"
    by simp
  have pages: "\<forall>p < page_count w. Apply_redactions p \<in> set t1"
    using t1(3) by simp
  have order: "\<forall>i j. i < length ?tr \<and> j < length ?tr \<and> image_event (?tr ! i)
      \<and> text_event (?tr ! j) \<longrightarrow> j < i"
    using two_passes_order [OF tr t1(2) t2(2) t3] by fastforce
  from tr t1(2) pages t2(2) t3 have
    "\<exists>t1 t2 t3. ?tr = t1 @ t2 @ t3
      \<and> (\<forall>e \<in> set t1. text_event e)
      \<and> (\<forall>p < page_count w. Apply_redactions p \<in> set t1)
      \<and> (\<forall>e \<in> set t2. image_event e)
      \<and> (\<forall>e \<in> set t3. \<not> text_event e \<and> \<not> image_event e)"
    by blast
  with order show ?thesis by blast
qed

theorem legal_redact_pdf_two_passes_witness:
  "legal_redact_pdf example_doc (Some rapidfuzz) (Some [''JOHN'']) ''obfuscate'' ''[X]'' None =
     [Add_redact_annot 0 (10, 10, 50, 22) Fill_black, Apply_redactions 0, Apply_redactions 1,
      Get_images 0, Get_images 1, Extract_image 7, Process_image 7, Delete_image 7,
      Add_image_ref [1, 2, 3, 1], Replace_image 1 7 8, Set_metadata, Del_xml_metadata, Save,
      Close]
   \<and> image_event
       (legal_redact_pdf example_doc (Some rapidfuzz) (Some [''JOHN'']) ''obfuscate'' ''[X]'' None
          ! 5)
   \<and> text_event
       (legal_redact_pdf example_doc (Some rapidfuzz) (Some [''JOHN'']) ''obfuscate'' ''[X]'' None
          ! 2)
   \<and> (2 :: nat) < 5"
proof -
  let ?tr = "legal_redact_pdf example_doc (Some rapidfuzz) (Some [''JOHN'']) ''obfuscate''
    ''[X]'' None"
  have v: "?tr =
     [Add_redact_annot 0 (10, 10, 50, 22) Fill_black, Apply_redactions 0, Apply_redactions 1,
      Get_images 0, Get_images 1, Extract_image 7, Process_image 7, Delete_image 7,
      Add_image_ref [1, 2, 3, 1], Replace_image 1 7 8, Set_metadata, Del_xml_metadata, Save,
      Close]"
    by code_simp
  have h: "5 < length ?tr \<and> 2 < length ?tr \<and> image_event (?tr ! 5) \<and> text_event (?tr ! 2)"
    unfolding v by simp
  from legal_redact_pdf_two_passes [of example_doc "Some rapidfuzz" "Some [''JOHN'']"
      "''obfuscate''" "''[X]''" None] h
  have "(2 :: nat) < 5" by blast
  with v h show ?thesis by simp
qed

end
